theory Spec2Isabelle
  imports Main
begin

section \<open>msvcfilt: a stream filter that undecorates Visual C++ symbol names\<close>

text \<open>
  The program (\<^verbatim>\<open>src/msvcfilt.cpp\<close>) reads lines either from the literal strings of
  its command line or from standard input, looks in every line for the pattern
  \<^verbatim>\<open>\?[a-zA-Z0-9_@?$]+\<close>, hands every match to the DbgHelp function
  \<^verbatim>\<open>UnDecorateSymbolName\<close> and writes the line, with the matches rewritten, to
  standard output.

  The embedding keeps the structure of the source: the globals, the two standard streams
  and the function-local static \<^verbatim>\<open>SymbolHandler\<close> are the fields of one record that
  every function takes and returns; a \<^verbatim>\<open>std::optional\<close> is an \<open>option\<close>; an
  iterator into a line is the offset of the character it points to; the DbgHelp library,
  which is not part of the repository, is a parameter.
\<close>

subsection \<open>Characters, C strings and string views\<close>

definition NUL :: char where
  "NUL = CHR 0x00"

definition newline :: char where
  "newline = CHR 0x0A"

text \<open>
  A \<^verbatim>\<open>const char *\<close> read as a string ends before its first NUL byte. This is what
  \<^verbatim>\<open>std::string::c_str\<close> followed by a C API sees, what the \<^verbatim>\<open>std::string\<close>
  constructor from a \<^verbatim>\<open>char *\<close> copies, and what \<^verbatim>\<open>operator<<\<close> prints for a
  \<^verbatim>\<open>char *\<close>.
\<close>

definition c_str :: "string \<Rightarrow> string" where
  "c_str s = takeWhile (\<lambda>c. c \<noteq> NUL) s"

text \<open>\<^verbatim>\<open>std::string_view(first, last)\<close> on two iterators of the same line.\<close>

definition string_view :: "string \<Rightarrow> nat \<Rightarrow> nat \<Rightarrow> string" where
  "string_view line firstPos lastPos = take (lastPos - firstPos) (drop firstPos line)"

subsection \<open>The pattern and its matches\<close>

definition in_range :: "char \<Rightarrow> char \<Rightarrow> char \<Rightarrow> bool" where
  "in_range lo hi c \<longleftrightarrow> (of_char lo :: nat) \<le> of_char c \<and> (of_char c :: nat) \<le> of_char hi"

text \<open>The bracket expression \<^verbatim>\<open>[a-zA-Z0-9_@?$]\<close> of \<^verbatim>\<open>DECORATED_SYMBOL_PATTERN\<close>.\<close>

definition isSymbolChar :: "char \<Rightarrow> bool" where
  "isSymbolChar c \<longleftrightarrow>
     in_range (CHR ''a'') (CHR ''z'') c \<or> in_range (CHR ''A'') (CHR ''Z'') c \<or>
     in_range (CHR ''0'') (CHR ''9'') c \<or> c = CHR ''_'' \<or> c = CHR ''@'' \<or>
     c = CHR ''?'' \<or> c = CHR ''$''"

text \<open>
  The greedy \<^verbatim>\<open>+\<close>: the end of the longest run of class characters that starts at
  \<open>pos\<close>.
\<close>

definition match_end :: "string \<Rightarrow> nat \<Rightarrow> nat" where
  "match_end line pos = pos + length (takeWhile isSymbolChar (drop pos line))"

text \<open>
  \<^verbatim>\<open>std::sregex_token_iterator(begin, end, pattern)\<close> enumerates the matches of the
  pattern (sub-match 0) from left to right: each search starts where the previous match
  ended, finds the leftmost position at which the pattern matches, and takes the longest
  run there. A match is the pair of its \<^verbatim>\<open>first\<close> and \<^verbatim>\<open>second\<close> iterators. The
  pattern needs a question mark and at least one class character after it.
\<close>

function regex_search_from :: "string \<Rightarrow> nat \<Rightarrow> (nat \<times> nat) list" where
  "regex_search_from line pos =
     (if length line \<le> pos + 1 then []
      else if line ! pos = CHR ''?'' \<and> isSymbolChar (line ! (pos + 1))
           then (pos, match_end line (pos + 1)) #
                regex_search_from line (match_end line (pos + 1))
           else regex_search_from line (pos + 1))"
  by pat_completeness auto
termination
  by (relation "measure (\<lambda>(line, pos). length line - pos)") (auto simp: match_end_def)

declare regex_search_from.simps [simp del]

definition sregex_token_iterator :: "string \<Rightarrow> (nat \<times> nat) list" where
  "sregex_token_iterator line = regex_search_from line 0"

subsection \<open>The DbgHelp library and the symbol handler\<close>

type_synonym HANDLE = nat

text \<open>
  The three functions of the Windows API that the program calls. \<open>SymInitialize\<close> gives
  the \<^verbatim>\<open>BOOL\<close> it returns for a process handle; \<open>UnDecorateSymbolName\<close> gives,
  for the C string it is passed, the \<^verbatim>\<open>DWORD\<close> it returns and the bytes it leaves in
  the output buffer. The program always passes the same buffer length and the same flags,
  and the function takes no process handle, so the name is its only argument here.
\<close>

record dbghelp =
  GetCurrentProcess :: HANDLE
  SymInitialize :: "HANDLE \<Rightarrow> bool"
  UnDecorateSymbolName :: "string \<Rightarrow> nat \<times> string"

text \<open>
  The class \<^verbatim>\<open>SymbolHandler\<close>. Its field \<^verbatim>\<open>fProc\<close> is \<^verbatim>\<open>nullptr\<close> (\<open>None\<close>)
  when \<^verbatim>\<open>SymInitialize\<close> failed. The buffer \<^verbatim>\<open>fUndecoratedBuffer\<close> is written and
  read back inside one call of \<^verbatim>\<open>UndecorateSymbol\<close> and carries nothing from one call
  to the next, so it appears only as the second component of \<open>UnDecorateSymbolName\<close>.
\<close>

record SymbolHandler =
  fProc :: "HANDLE option"

definition SymbolHandler_ctor :: "dbghelp \<Rightarrow> SymbolHandler" where
  "SymbolHandler_ctor env =
     (let proc = GetCurrentProcess env
      in if \<not> SymInitialize env proc then \<lparr>fProc = None\<rparr> else \<lparr>fProc = Some proc\<rparr>)"

definition UndecorateSymbol :: "dbghelp \<Rightarrow> SymbolHandler \<Rightarrow> string \<Rightarrow> string option" where
  "UndecorateSymbol env this symbol =
     (let (res, buffer) = UnDecorateSymbolName env (c_str symbol);
          success = (res \<noteq> 0)
      in if success then Some (c_str buffer) else None)"

text \<open>
  The destructor \<^verbatim>\<open>~SymbolHandler\<close>: the calls of \<^verbatim>\<open>SymCleanup\<close> that it makes,
  each given by the handle it passes. It is the only place where \<^verbatim>\<open>fProc\<close> is read.
\<close>

definition SymbolHandler_dtor :: "SymbolHandler \<Rightarrow> HANDLE list" where
  "SymbolHandler_dtor this = (case fProc this of None \<Rightarrow> [] | Some proc \<Rightarrow> [proc])"

subsection \<open>Standard input\<close>

text \<open>
  \<^verbatim>\<open>std::cin\<close>: the bytes not yet extracted and the three state bits of
  \<^verbatim>\<open>std::ios_base\<close>.
\<close>

record istream =
  pending :: string
  eofbit :: bool
  failbit :: bool
  badbit :: bool

definition good :: "istream \<Rightarrow> bool" where
  "good s \<longleftrightarrow> \<not> eofbit s \<and> \<not> failbit s \<and> \<not> badbit s"

text \<open>
  \<^verbatim>\<open>std::getline(is, line)\<close> as the C++ standard describes it. On a stream that is
  not good the sentry sets \<^verbatim>\<open>failbit\<close> and nothing is extracted. Otherwise characters
  are extracted up to and including the next line feed, which is not stored; when the
  input ends first, \<^verbatim>\<open>eofbit\<close> is set, and \<^verbatim>\<open>failbit\<close> too if not a single
  character was extracted.
\<close>

definition getline :: "istream \<Rightarrow> string \<times> istream" where
  "getline s =
     (if \<not> good s then ([], s\<lparr>failbit := True\<rparr>)
      else if newline \<in> set (pending s)
      then (takeWhile (\<lambda>c. c \<noteq> newline) (pending s),
            s\<lparr>pending := tl (dropWhile (\<lambda>c. c \<noteq> newline) (pending s))\<rparr>)
      else (pending s, s\<lparr>pending := [], eofbit := True, failbit := (pending s = [])\<rparr>))"

subsection \<open>The state of the process\<close>

record world =
  gKeepOldName :: bool
  gInputStrings :: "string list option"
  cin :: istream
  cout :: string
  static_instance :: "SymbolHandler option"

text \<open>The state in which \<^verbatim>\<open>main\<close> is entered, for a given standard input.\<close>

definition initial_world :: "istream \<Rightarrow> world" where
  "initial_world stdin =
     \<lparr>gKeepOldName = False, gInputStrings = None, cin = stdin, cout = [],
      static_instance = None\<rparr>"

definition cout_put :: "string \<Rightarrow> world \<Rightarrow> world" where
  "cout_put s w = w\<lparr>cout := cout w @ s\<rparr>"

text \<open>
  \<^verbatim>\<open>SymbolHandler::GetInstance\<close>: the function-local static is constructed when
  control first passes through its declaration, and never again.
\<close>

definition GetInstance :: "dbghelp \<Rightarrow> world \<Rightarrow> SymbolHandler \<times> world" where
  "GetInstance env w =
     (case static_instance w of
        Some inst \<Rightarrow> (inst, w)
      | None \<Rightarrow> (let inst = SymbolHandler_ctor env in (inst, w\<lparr>static_instance := Some inst\<rparr>)))"

text \<open>
  The end of the program: the function-local static is destroyed if it was ever
  constructed. The result is the list of the \<^verbatim>\<open>SymCleanup\<close> calls made.
\<close>

definition process_exit :: "world \<Rightarrow> HANDLE list" where
  "process_exit w =
     (case static_instance w of None \<Rightarrow> [] | Some inst \<Rightarrow> SymbolHandler_dtor inst)"

subsection \<open>Command line\<close>

definition help_lines :: "string list" where
  "help_lines =
     [''Usage: msvcfilt [OPTIONS] <decorated string>...'',
      ''Searches input stream for Microsoft Visual C++ decorated symbol names'',
      ''and replaces them with their undecorated equivalent.'',
      '''',
      ''Options:'',
      ''    -help, --help    Display this help and exit.'',
      ''    -keep, --keep    Does not replace the original, decorated symbol name.'',
      ''                     Instead, the undecorated name will be inserted after it.'',
      ''    Uses STDIN rather than <decorated string> if not set'']"

definition showHelp :: "world \<Rightarrow> world" where
  "showHelp w = cout_put (concat (map (\<lambda>l. l @ [newline]) help_lines)) w"

definition is_help :: "string \<Rightarrow> bool" where
  "is_help a \<longleftrightarrow> a = ''-help'' \<or> a = ''--help''"

definition is_keep :: "string \<Rightarrow> bool" where
  "is_keep a \<longleftrightarrow> a = ''-keep'' \<or> a = ''--keep''"

text \<open>
  The loop of \<^verbatim>\<open>processArgs\<close> over \<^verbatim>\<open>argv[1]\<close>, ..., \<^verbatim>\<open>argv[argc - 1]\<close>. The
  elements of \<^verbatim>\<open>argv\<close> are C strings; the model holds the characters before the
  terminator, so that \<^verbatim>\<open>strcmp(a, b) == 0\<close> is equality.
\<close>

fun processArgs_loop :: "string list \<Rightarrow> world \<Rightarrow> bool \<times> world" where
  "processArgs_loop [] w = (True, w)"
| "processArgs_loop (a # rest) w =
     (if is_help a then (False, showHelp w)
      else if is_keep a then processArgs_loop rest (w\<lparr>gKeepOldName := True\<rparr>)
      else
        (let w1 = (if gInputStrings w = None then w\<lparr>gInputStrings := Some []\<rparr> else w)
         in processArgs_loop rest
              (w1\<lparr>gInputStrings := map_option (\<lambda>q. q @ [a]) (gInputStrings w1)\<rparr>)))"

definition processArgs :: "string list \<Rightarrow> world \<Rightarrow> bool \<times> world" where
  "processArgs argv w = processArgs_loop (drop 1 argv) w"

subsection \<open>The input source\<close>

definition inputValid :: "world \<Rightarrow> bool" where
  "inputValid w =
     (case gInputStrings w of None \<Rightarrow> good (cin w) | Some q \<Rightarrow> q \<noteq> [])"

definition getNextLine :: "world \<Rightarrow> string option \<times> world" where
  "getNextLine w =
     (if \<not> inputValid w then (None, w)
      else case gInputStrings w of
             None \<Rightarrow> (let (line, s) = getline (cin w) in (Some line, w\<lparr>cin := s\<rparr>))
           | Some q \<Rightarrow>
               (case q of
                  front # rest \<Rightarrow> (Some front, w\<lparr>gInputStrings := Some rest\<rparr>)
                | [] \<Rightarrow> (Some [], w)))"

subsection \<open>Rewriting one line\<close>

text \<open>
  The body of the \<^verbatim>\<open>for\<close> loop of \<^verbatim>\<open>main\<close> for one match; the loop variable
  \<^verbatim>\<open>prevPos\<close> travels with the state.
\<close>

definition match_step :: "dbghelp \<Rightarrow> string \<Rightarrow> nat \<times> nat \<Rightarrow> nat \<times> world \<Rightarrow> nat \<times> world" where
  \<open>match_step env line m st =
     (let (startPos, endPos) = m;
          (prevPos, w) = st;
          w1 = cout_put (string_view line prevPos startPos) w;
          symbol = string_view line startPos endPos;
          (handler, w2) = GetInstance env w1;
          result = UndecorateSymbol env handler symbol
      in case result of
           None \<Rightarrow> (endPos, w2)
         | Some name \<Rightarrow>
             if gKeepOldName w2
             then (endPos, cout_put (string_view line startPos endPos @ '' "'' @ name @ ''"'') w2)
             else (endPos, cout_put name w2))\<close>

fun match_loop :: "dbghelp \<Rightarrow> string \<Rightarrow> (nat \<times> nat) list \<Rightarrow> nat \<times> world \<Rightarrow> nat \<times> world" where
  "match_loop env line [] st = st"
| "match_loop env line (m # ms) st = match_loop env line ms (match_step env line m st)"

text \<open>
  One iteration of the \<^verbatim>\<open>while\<close> loop of \<^verbatim>\<open>main\<close>. The remainder of the line is
  written through a \<^verbatim>\<open>const char *\<close>.
\<close>

definition process_line :: "dbghelp \<Rightarrow> string \<Rightarrow> world \<Rightarrow> world" where
  "process_line env line w =
     (let (prevPos, w1) = match_loop env line (sregex_token_iterator line) (0, w);
          w2 = (if prevPos \<noteq> length line then cout_put (c_str (drop prevPos line)) w1 else w1)
      in cout_put [newline] w2)"

subsection \<open>The main loop\<close>

text \<open>
  What is left of the input: the length of the queue, or the number of pending bytes of
  standard input and one more while the stream is still good. Every line that
  \<^verbatim>\<open>getNextLine\<close> returns makes it smaller, so the loop of \<^verbatim>\<open>main\<close> ends.
\<close>

definition input_left :: "world \<Rightarrow> nat" where
  "input_left w =
     (case gInputStrings w of
        None \<Rightarrow> length (pending (cin w)) + (if good (cin w) then 1 else 0)
      | Some q \<Rightarrow> length q)"

function main_loop :: "dbghelp \<Rightarrow> world \<Rightarrow> world" where
  "main_loop env w =
     (case getNextLine w of
        (None, w') \<Rightarrow> w'
      | (Some line, w') \<Rightarrow> main_loop env (process_line env line w'))"
  by pat_completeness auto
termination
proof (relation "measure (\<lambda>(env, w). input_left w)")
  show "wf (measure (\<lambda>(env, w). input_left w))"
    by simp
next
  fix env :: dbghelp and w w' :: world and r line
  assume r: "(r, w') = getNextLine w" and next_line: "r = Some line"
  have step: "gInputStrings (snd (match_step env line m st)) = gInputStrings (snd st) \<and>
      cin (snd (match_step env line m st)) = cin (snd st)" for m st
    by (simp add: match_step_def GetInstance_def cout_put_def Let_def
          split: prod.splits option.splits)
  have loop: "gInputStrings (snd (match_loop env line ms st)) = gInputStrings (snd st) \<and>
      cin (snd (match_loop env line ms st)) = cin (snd st)" for ms st
    by (induction ms arbitrary: st) (simp_all add: step)
  obtain p w1 where m: "match_loop env line (sregex_token_iterator line) (0, w') = (p, w1)"
    by (cases "match_loop env line (sregex_token_iterator line) (0, w')")
  have "gInputStrings w1 = gInputStrings w'" and "cin w1 = cin w'"
    using loop [of "sregex_token_iterator line" "(0, w')"] m by simp_all
  then have "gInputStrings (process_line env line w') = gInputStrings w'"
    and "cin (process_line env line w') = cin w'"
    by (simp_all add: process_line_def m cout_put_def Let_def)
  then have same: "input_left (process_line env line w') = input_left w'"
    by (simp only: input_left_def)
  have shorter: "length (dropWhile P xs) - Suc 0 < length xs" if "x \<in> set xs" for P x and xs :: string
    using that length_dropWhile_le [of P xs] by (cases xs) auto
  have "input_left w' < input_left w"
    using r next_line
    by (auto simp: getNextLine_def inputValid_def input_left_def getline_def good_def Let_def
          shorter split: if_splits option.splits list.splits)
  with same show "((env, process_line env line w'), (env, w)) \<in> measure (\<lambda>(env, w). input_left w)"
    by simp
qed

declare main_loop.simps [simp del]

text \<open>\<^verbatim>\<open>main\<close> returns 0 on both of its paths.\<close>

definition main :: "dbghelp \<Rightarrow> string list \<Rightarrow> world \<Rightarrow> int \<times> world" where
  "main env argv w =
     (case processArgs argv w of
        (False, w1) \<Rightarrow> (0, w1)
      | (True, w1) \<Rightarrow> (0, main_loop env w1))"


subsection \<open>Descriptions of the output\<close>

text \<open>
  The pattern as a language: a question mark followed by one or more class characters.
  A line contains a candidate when one of its substrings is in the language.
\<close>

definition matches_pattern :: "string \<Rightarrow> bool" where
  "matches_pattern s =
     (case s of [] \<Rightarrow> False | c # cs \<Rightarrow> c = CHR ''?'' \<and> cs \<noteq> [] \<and> list_all isSymbolChar cs)"

definition contains_candidate :: "string \<Rightarrow> bool" where
  "contains_candidate line \<longleftrightarrow> (\<exists>pre s post. line = pre @ s @ post \<and> matches_pattern s)"

text \<open>
  The text that one pass through the loop body writes for a matched symbol, after the gap:
  nothing when \<^verbatim>\<open>UndecorateSymbol\<close> returns no value.
\<close>

definition written_for :: "dbghelp \<Rightarrow> bool \<Rightarrow> string \<Rightarrow> string" where
  \<open>written_for env keep symbol =
     (case UndecorateSymbol env (SymbolHandler_ctor env) symbol of
        None \<Rightarrow> []
      | Some name \<Rightarrow> if keep then symbol @ '' "'' @ name @ ''"'' else name)\<close>

text \<open>
  The text written while the matches \<open>ms\<close> are visited, starting with \<^verbatim>\<open>prevPos\<close>
  at \<open>prevPos\<close>: for each match the gap before it, byte for byte, and then the text for
  the match.
\<close>

fun written_through :: "dbghelp \<Rightarrow> bool \<Rightarrow> string \<Rightarrow> nat \<Rightarrow> (nat \<times> nat) list \<Rightarrow> string" where
  "written_through env keep line prevPos [] = []"
| "written_through env keep line prevPos (m # ms) =
     string_view line prevPos (fst m) @ written_for env keep (string_view line (fst m) (snd m)) @
     written_through env keep line (snd m) ms"

text \<open>Where \<^verbatim>\<open>prevPos\<close> stands after the loop that started at the beginning of the line.\<close>

definition last_end :: "(nat \<times> nat) list \<Rightarrow> nat" where
  "last_end ms = (if ms = [] then 0 else snd (last ms))"

text \<open>The results of \<open>n\<close> successive calls of \<^verbatim>\<open>getNextLine\<close>, and the state after them.\<close>

fun nextLines :: "nat \<Rightarrow> world \<Rightarrow> string option list \<times> world" where
  "nextLines 0 w = ([], w)"
| "nextLines (Suc n) w =
     (let (line, w1) = getNextLine w; (lines, w2) = nextLines n w1 in (line # lines, w2))"

text \<open>The arguments that go to the queue: all that are not a keep flag, in their order.\<close>

definition literal_args :: "string list \<Rightarrow> string list" where
  "literal_args args = filter (\<lambda>a. \<not> is_keep a) args"

subsection \<open>Concrete inputs\<close>

text \<open>A standard input that holds the given bytes and has not been read yet.\<close>

definition stdin_of :: "string \<Rightarrow> istream" where
  "stdin_of s = \<lparr>pending = s, eofbit = False, failbit = False, badbit = False\<rparr>"

text \<open>
  A DbgHelp library that initialises and undecorates \<^verbatim>\<open>?foo@@YAXXZ\<close> to
  \<^verbatim>\<open>void foo(void)\<close> and nothing else; one that undecorates the same but fails to
  initialise; and one that undecorates nothing.
\<close>

definition undecorate_foo :: "string \<Rightarrow> nat \<times> string" where
  "undecorate_foo s = (if s = ''?foo@@YAXXZ'' then (14, ''void foo(void)'') else (0, []))"

definition dbghelp_foo :: dbghelp where
  "dbghelp_foo =
     \<lparr>GetCurrentProcess = 1, SymInitialize = (\<lambda>h. True), UnDecorateSymbolName = undecorate_foo\<rparr>"

definition dbghelp_uninitialised :: dbghelp where
  "dbghelp_uninitialised =
     \<lparr>GetCurrentProcess = 1, SymInitialize = (\<lambda>h. False), UnDecorateSymbolName = undecorate_foo\<rparr>"

definition dbghelp_failing :: dbghelp where
  "dbghelp_failing =
     \<lparr>GetCurrentProcess = 1, SymInitialize = (\<lambda>h. True), UnDecorateSymbolName = (\<lambda>s. (0, []))\<rparr>"

text \<open>Two lines with embedded NUL bytes, as \<^verbatim>\<open>std::getline\<close> can deliver them.\<close>

definition line_a_NUL_b :: string where
  "line_a_NUL_b = [CHR ''a'', NUL, CHR ''b'']"

definition line_with_NULs :: string where
  "line_with_NULs =
     [CHR ''a'', NUL, CHR ''b''] @ ''?foo@@YAXXZ'' @ [CHR '' '', CHR ''c'', NUL, CHR ''d'']"

section \<open>Properties\<close>

subsection \<open>What the loop over the matches writes\<close>

lemma UndecorateSymbol_any_handler:
  "UndecorateSymbol env h symbol = UndecorateSymbol env h' symbol"
  by (simp add: UndecorateSymbol_def)

lemma match_step_fst: "fst (match_step env line m st) = snd m"
  by (simp add: match_step_def Let_def split: prod.splits option.splits)

lemma match_step_keep:
  "gKeepOldName (snd (match_step env line m st)) = gKeepOldName (snd st)"
  by (simp add: match_step_def GetInstance_def cout_put_def Let_def
        split: prod.splits option.splits)

lemma match_step_cout:
  "cout (snd (match_step env line m st)) =
     cout (snd st) @ string_view line (fst st) (fst m) @
     written_for env (gKeepOldName (snd st)) (string_view line (fst m) (snd m))"
  using UndecorateSymbol_any_handler [of env _ "string_view line (fst m) (snd m)" "SymbolHandler_ctor env"]
  by (auto simp: match_step_def GetInstance_def cout_put_def written_for_def Let_def
        split: prod.splits option.splits)

lemma match_loop_keep:
  "gKeepOldName (snd (match_loop env line ms st)) = gKeepOldName (snd st)"
  by (induction ms arbitrary: st) (simp_all add: match_step_keep)

lemma match_loop_fst:
  "fst (match_loop env line ms st) = (if ms = [] then fst st else snd (last ms))"
  by (induction ms arbitrary: st) (simp_all add: match_step_fst)

lemma match_loop_cout:
  "cout (snd (match_loop env line ms st)) =
     cout (snd st) @ written_through env (gKeepOldName (snd st)) line (fst st) ms"
  by (induction ms arbitrary: st)
     (simp_all add: match_step_cout match_step_keep match_step_fst)

lemma c_str_drop_all: "c_str (drop (length line) line) = []"
  by (simp add: c_str_def)

lemma process_line_cout:
  "cout (process_line env line w) =
     cout w @ written_through env (gKeepOldName w) line 0 (sregex_token_iterator line) @
     c_str (drop (last_end (sregex_token_iterator line)) line) @ [newline]"
proof -
  let ?ms = "sregex_token_iterator line"
  obtain p w1 where r: "match_loop env line ?ms (0, w) = (p, w1)"
    by (cases "match_loop env line ?ms (0, w)")
  have p: "p = last_end ?ms"
    using match_loop_fst [of env line ?ms "(0, w)"] r by (simp add: last_end_def)
  have w1: "cout w1 = cout w @ written_through env (gKeepOldName w) line 0 ?ms"
    using match_loop_cout [of env line ?ms "(0, w)"] r by simp
  show ?thesis
  proof (cases "p = length line")
    case True
    then show ?thesis
      using p w1 r by (simp add: process_line_def cout_put_def c_str_def)
  next
    case False
    then show ?thesis
      using p w1 r by (simp add: process_line_def cout_put_def Let_def)
  qed
qed

subsection \<open>Scenarios A and B: one symbol that resolves\<close>

lemma tokens_scenario_A: "sregex_token_iterator ''call ?foo@@YAXXZ done'' = [(5, 16)]"
  by code_simp

lemma view_before_A: "string_view ''call ?foo@@YAXXZ done'' 0 5 = ''call ''"
  by (simp add: string_view_def)

lemma view_symbol_A: "string_view ''call ?foo@@YAXXZ done'' 5 16 = ''?foo@@YAXXZ''"
  by (simp add: string_view_def)

lemma c_str_foo: "c_str ''?foo@@YAXXZ'' = ''?foo@@YAXXZ''"
  by (simp add: c_str_def NUL_def)

lemma c_str_void_foo: "c_str ''void foo(void)'' = ''void foo(void)''"
  by (simp add: c_str_def NUL_def)

lemma c_str_done_A: "c_str '' done'' = '' done''"
  by (simp add: c_str_def NUL_def)

text \<open>
  Claim C7. For the line \<^verbatim>\<open>call ?foo@@YAXXZ done\<close>, when \<^verbatim>\<open>UndecorateSymbol\<close>
  returns \<^verbatim>\<open>void foo(void)\<close> for \<^verbatim>\<open>?foo@@YAXXZ\<close> and \<^verbatim>\<open>gKeepOldName\<close> is
  false, the program writes \<^verbatim>\<open>call void foo(void) done\<close> and a line feed: the name
  replaces the match, and the text around it is unchanged.
\<close>

theorem scenario_A_replace:
  assumes "UndecorateSymbol env h ''?foo@@YAXXZ'' = Some ''void foo(void)''"
    and "\<not> gKeepOldName w"
  shows "cout (process_line env ''call ?foo@@YAXXZ done'' w) =
           cout w @ ''call void foo(void) done'' @ [newline]"
proof -
  have "written_for env False ''?foo@@YAXXZ'' = ''void foo(void)''"
    using assms(1) UndecorateSymbol_any_handler [of env h "''?foo@@YAXXZ''" "SymbolHandler_ctor env"]
    by (simp add: written_for_def)
  then show ?thesis
    using assms(2)
    by (simp add: process_line_cout tokens_scenario_A last_end_def view_before_A view_symbol_A
          c_str_done_A)
qed

theorem scenario_A_replace_witness:
  "cout (process_line dbghelp_foo ''call ?foo@@YAXXZ done'' (initial_world (stdin_of []))) =
     ''call void foo(void) done'' @ [newline]"
  using scenario_A_replace [of dbghelp_foo "SymbolHandler_ctor dbghelp_foo"
      "initial_world (stdin_of [])"]
  by (simp add: UndecorateSymbol_def dbghelp_foo_def undecorate_foo_def initial_world_def
        c_str_foo c_str_void_foo)

text \<open>
  Claim C8. For the same line and the same result of \<^verbatim>\<open>UndecorateSymbol\<close>, when
  \<^verbatim>\<open>gKeepOldName\<close> is true the program writes the matched text, one space, and the
  undecorated name between double quotes:
  \<^verbatim>\<open>call ?foo@@YAXXZ "void foo(void)" done\<close> and a line feed.
\<close>

theorem scenario_B_keep:
  assumes "UndecorateSymbol env h ''?foo@@YAXXZ'' = Some ''void foo(void)''"
    and "gKeepOldName w"
  shows \<open>cout (process_line env ''call ?foo@@YAXXZ done'' w) =
           cout w @ ''call ?foo@@YAXXZ "void foo(void)" done'' @ [newline]\<close>
proof -
  have \<open>written_for env True ''?foo@@YAXXZ'' = ''?foo@@YAXXZ "void foo(void)"''\<close>
    using assms(1) UndecorateSymbol_any_handler [of env h "''?foo@@YAXXZ''" "SymbolHandler_ctor env"]
    by (simp add: written_for_def)
  then show ?thesis
    using assms(2)
    by (simp add: process_line_cout tokens_scenario_A last_end_def view_before_A view_symbol_A
          c_str_done_A)
qed

theorem scenario_B_keep_witness:
  \<open>cout (process_line dbghelp_foo ''call ?foo@@YAXXZ done''
           ((initial_world (stdin_of []))\<lparr>gKeepOldName := True\<rparr>)) =
     ''call ?foo@@YAXXZ "void foo(void)" done'' @ [newline]\<close>
  using scenario_B_keep [of dbghelp_foo "SymbolHandler_ctor dbghelp_foo"
      "(initial_world (stdin_of []))\<lparr>gKeepOldName := True\<rparr>"]
  by (simp add: UndecorateSymbol_def dbghelp_foo_def undecorate_foo_def initial_world_def
        c_str_foo c_str_void_foo)

subsection \<open>The scanner finds a match exactly when the line contains a candidate\<close>

lemma matches_pattern_two: "matches_pattern [CHR ''?'', c] \<longleftrightarrow> isSymbolChar c"
  by (simp add: matches_pattern_def)

lemma contains_candidate_iff:
  "contains_candidate line \<longleftrightarrow>
     (\<exists>i. i + 1 < length line \<and> line ! i = CHR ''?'' \<and> isSymbolChar (line ! (i + 1)))"
proof
  assume "contains_candidate line"
  then obtain pre s post where line: "line = pre @ s @ post" and s: "matches_pattern s"
    by (auto simp: contains_candidate_def)
  from s obtain c cs where "s = CHR ''?'' # c # cs" and "isSymbolChar c"
    by (cases s; cases "tl s") (auto simp: matches_pattern_def)
  with line have "length pre + 1 < length line" and "line ! length pre = CHR ''?''"
    and "isSymbolChar (line ! (length pre + 1))"
    by (simp_all add: nth_append)
  then show "\<exists>i. i + 1 < length line \<and> line ! i = CHR ''?'' \<and> isSymbolChar (line ! (i + 1))"
    by blast
next
  assume "\<exists>i. i + 1 < length line \<and> line ! i = CHR ''?'' \<and> isSymbolChar (line ! (i + 1))"
  then obtain i where i: "i + 1 < length line" and q: "line ! i = CHR ''?''"
    and c: "isSymbolChar (line ! (i + 1))"
    by blast
  from i have "line = take i line @ [line ! i, line ! (i + 1)] @ drop (i + 2) line"
    by (simp add: Cons_nth_drop_Suc)
  moreover have "matches_pattern [line ! i, line ! (i + 1)]"
    using q c by (simp add: matches_pattern_two)
  ultimately show "contains_candidate line"
    unfolding contains_candidate_def by blast
qed

lemma regex_search_from_Nil_iff:
  "regex_search_from line pos = [] \<longleftrightarrow>
     \<not> (\<exists>i\<ge>pos. i + 1 < length line \<and> line ! i = CHR ''?'' \<and> isSymbolChar (line ! (i + 1)))"
proof (induction line pos rule: regex_search_from.induct)
  case (1 line pos)
  show ?case
  proof (cases "length line \<le> pos + 1")
    case True
    then show ?thesis
      by (subst regex_search_from.simps) auto
  next
    case long: False
    show ?thesis
    proof (cases "line ! pos = CHR ''?'' \<and> isSymbolChar (line ! (pos + 1))")
      case True
      with long show ?thesis
        by (subst regex_search_from.simps) auto
    next
      case False
      have "(\<exists>i\<ge>pos. i + 1 < length line \<and> line ! i = CHR ''?'' \<and> isSymbolChar (line ! (i + 1))) \<longleftrightarrow>
            (\<exists>i\<ge>pos + 1. i + 1 < length line \<and> line ! i = CHR ''?'' \<and> isSymbolChar (line ! (i + 1)))"
        using False by (metis Suc_eq_plus1 Suc_leI le_neq_implies_less le_add1 le_trans)
      moreover have "regex_search_from line pos = regex_search_from line (pos + 1)"
        using long False by (subst regex_search_from.simps) auto
      ultimately show ?thesis
        using "1.IH"(2) [OF long False] by simp
    qed
  qed
qed

lemma no_tokens_iff: "sregex_token_iterator line = [] \<longleftrightarrow> \<not> contains_candidate line"
  by (simp add: sregex_token_iterator_def regex_search_from_Nil_iff contains_candidate_iff)

lemma c_str_no_NUL: "NUL \<notin> set s \<Longrightarrow> c_str s = s"
  by (auto simp: c_str_def takeWhile_eq_all_conv)

lemma no_candidate_written:
  "\<not> contains_candidate line \<Longrightarrow> cout (process_line env line w) = cout w @ c_str line @ [newline]"
  using no_tokens_iff [of line] by (simp add: process_line_cout last_end_def)

lemma no_candidate_no_NUL_unchanged:
  "\<not> contains_candidate line \<Longrightarrow> NUL \<notin> set line \<Longrightarrow>
     cout (process_line env line w) = cout w @ line @ [newline]"
  by (simp add: no_candidate_written c_str_no_NUL)

subsection \<open>The matches are candidates, in order and disjoint\<close>

lemma match_end_bounds: "pos \<le> match_end line pos \<and> match_end line pos \<le> max pos (length line)"
  using length_takeWhile_le [of isSymbolChar "drop pos line"] by (simp add: match_end_def)

lemma match_end_gt:
  "pos < length line \<Longrightarrow> isSymbolChar (line ! pos) \<Longrightarrow> pos < match_end line pos"
  by (cases "drop pos line") (auto simp: match_end_def hd_drop_conv_nth dest: arg_cong [where f = hd])

lemma view_to_match_end:
  "string_view line pos (match_end line pos) = takeWhile isSymbolChar (drop pos line)"
  by (simp add: string_view_def match_end_def takeWhile_eq_take [symmetric])

lemma match_end_maximal:
  "match_end line pos < length line \<Longrightarrow> \<not> isSymbolChar (line ! match_end line pos)"
proof -
  assume less: "match_end line pos < length line"
  let ?n = "length (takeWhile isSymbolChar (drop pos line))"
  have n: "?n < length (drop pos line)"
    using less by (simp add: match_end_def)
  then have "\<not> isSymbolChar (drop pos line ! ?n)"
    by (rule nth_length_takeWhile)
  moreover have "drop pos line ! ?n = line ! (pos + ?n)"
    using n by simp
  ultimately show ?thesis
    by (simp add: match_end_def)
qed

lemma candidate_view:
  assumes "pos + 1 < length line" and "line ! pos = CHR ''?''" and "isSymbolChar (line ! (pos + 1))"
  shows "matches_pattern (string_view line pos (match_end line (pos + 1)))"
proof -
  let ?e = "match_end line (pos + 1)"
  have e: "pos + 1 < ?e"
    using assms(1,3) by (simp add: match_end_gt)
  have "string_view line pos ?e = line ! pos # string_view line (pos + 1) ?e"
    using assms(1) e
    by (simp add: string_view_def Cons_nth_drop_Suc [symmetric] take_Cons' Suc_diff_Suc)
  moreover have "string_view line (pos + 1) ?e \<noteq> []"
    using assms(1) e match_end_bounds [of "pos + 1" line] by (simp add: string_view_def)
  moreover have "list_all isSymbolChar (string_view line (pos + 1) ?e)"
    by (auto simp: view_to_match_end list_all_iff dest: set_takeWhileD)
  ultimately show ?thesis
    using assms(2) by (simp add: matches_pattern_def)
qed

lemma regex_search_from_sound:
  "m \<in> set (regex_search_from line pos) \<Longrightarrow>
     pos \<le> fst m \<and> fst m < snd m \<and> snd m \<le> length line \<and>
     matches_pattern (string_view line (fst m) (snd m)) \<and>
     (snd m < length line \<longrightarrow> \<not> isSymbolChar (line ! snd m))"
proof (induction line pos rule: regex_search_from.induct)
  case (1 line pos)
  show ?case
  proof (cases "length line \<le> pos + 1")
    case True
    with "1.prems" show ?thesis
      by (subst (asm) regex_search_from.simps) simp
  next
    case long: False
    show ?thesis
    proof (cases "line ! pos = CHR ''?'' \<and> isSymbolChar (line ! (pos + 1))")
      case True
      let ?e = "match_end line (pos + 1)"
      have e: "pos + 1 < ?e" "?e \<le> length line"
        using long True match_end_gt [of "pos + 1" line] match_end_bounds [of "pos + 1" line]
        by simp_all
      from "1.prems" long True
      have "m = (pos, ?e) \<or> m \<in> set (regex_search_from line ?e)"
        by (subst (asm) regex_search_from.simps) auto
      then show ?thesis
      proof
        assume "m = (pos, ?e)"
        then show ?thesis
          using long True e candidate_view [of pos line] match_end_maximal [of line "pos + 1"]
          by simp
      next
        assume "m \<in> set (regex_search_from line ?e)"
        then show ?thesis
          using "1.IH"(1) [OF long True] e by simp
      qed
    next
      case False
      from "1.prems" long False have "m \<in> set (regex_search_from line (pos + 1))"
        by (subst (asm) regex_search_from.simps) auto
      then show ?thesis
        using "1.IH"(2) [OF long False] by simp
    qed
  qed
qed

lemma regex_search_from_ordered:
  "sorted_wrt (\<lambda>m m'. snd m \<le> fst m') (regex_search_from line pos)"
proof (induction line pos rule: regex_search_from.induct)
  case (1 line pos)
  show ?case
  proof (cases "length line \<le> pos + 1")
    case True
    then show ?thesis
      by (subst regex_search_from.simps) simp
  next
    case long: False
    show ?thesis
    proof (cases "line ! pos = CHR ''?'' \<and> isSymbolChar (line ! (pos + 1))")
      case True
      then show ?thesis
        using long "1.IH"(1) [OF long True] regex_search_from_sound [of _ line "match_end line (pos + 1)"]
        by (subst regex_search_from.simps) auto
    next
      case False
      then show ?thesis
        using long "1.IH"(2) [OF long False] by (subst regex_search_from.simps) auto
    qed
  qed
qed

subsection \<open>The remainder of the line\<close>

text \<open>
  Claim C9. For every line, what is written after the last match (the whole line when
  there is no match) stops before the first NUL byte of that segment, while every gap before
  a match is written byte for byte as \<open>string_view\<close> gives it, NUL bytes included.
\<close>

theorem remainder_truncated_at_NUL:
  "cout (process_line env line w) =
     cout w @ written_through env (gKeepOldName w) line 0 (sregex_token_iterator line) @
     takeWhile (\<lambda>c. c \<noteq> NUL) (drop (last_end (sregex_token_iterator line)) line) @ [newline]"
  using process_line_cout [of env line w] by (simp add: c_str_def)

lemma tokens_with_NULs: "sregex_token_iterator line_with_NULs = [(3, 14)]"
  by code_simp

lemma gap_with_NUL: "string_view line_with_NULs 0 3 = [CHR ''a'', NUL, CHR ''b'']"
  by (simp add: string_view_def line_with_NULs_def)

lemma symbol_with_NULs: "string_view line_with_NULs 3 14 = ''?foo@@YAXXZ''"
  by (simp add: string_view_def line_with_NULs_def)

lemma remainder_with_NUL:
  "takeWhile (\<lambda>c. c \<noteq> NUL) (drop 14 line_with_NULs) = '' c''"
  by (simp add: line_with_NULs_def NUL_def)

lemma written_for_foo: "written_for dbghelp_foo False ''?foo@@YAXXZ'' = ''void foo(void)''"
  by (simp add: written_for_def UndecorateSymbol_def dbghelp_foo_def undecorate_foo_def
        c_str_def NUL_def)

theorem remainder_truncated_at_NUL_witness:
  "cout (process_line dbghelp_foo line_with_NULs (initial_world (stdin_of []))) =
     [CHR ''a'', NUL, CHR ''b''] @ ''void foo(void)'' @ '' c'' @ [newline]"
  using remainder_truncated_at_NUL [of dbghelp_foo line_with_NULs "initial_world (stdin_of [])"]
  by (simp add: tokens_with_NULs last_end_def gap_with_NUL symbol_with_NULs remainder_with_NUL
        written_for_foo initial_world_def)

subsection \<open>Matches that do not resolve\<close>

lemma written_for_unresolved:
  "UndecorateSymbol env h symbol = None \<Longrightarrow> written_for env keep symbol = []"
  using UndecorateSymbol_any_handler [of env h symbol "SymbolHandler_ctor env"]
  by (simp add: written_for_def)

lemma tokens_scenario_D: "sregex_token_iterator ''?bad@ ?foo@@YAXXZ'' = [(0, 5), (6, 17)]"
  by code_simp

text \<open>
  Claim C1 says that a match that does not resolve is written unchanged. On the line of
  scenario D the program writes the gap and the second name, and nothing for
  \<^verbatim>\<open>?bad@\<close>: the loop has moved \<^verbatim>\<open>prevPos\<close> behind the match before it leaves
  the iteration.
\<close>

theorem scenario_D_unresolved_dropped:
  "UndecorateSymbol dbghelp_foo (SymbolHandler_ctor dbghelp_foo) ''?bad@'' = None \<and>
   cout (process_line dbghelp_foo ''?bad@ ?foo@@YAXXZ'' (initial_world (stdin_of []))) =
     '' void foo(void)'' @ [newline]"
proof -
  have bad: "UndecorateSymbol dbghelp_foo (SymbolHandler_ctor dbghelp_foo) ''?bad@'' = None"
    by (simp add: UndecorateSymbol_def dbghelp_foo_def undecorate_foo_def c_str_def NUL_def)
  have foo: "UndecorateSymbol dbghelp_foo (SymbolHandler_ctor dbghelp_foo) ''?foo@@YAXXZ'' =
      Some ''void foo(void)''"
    by (simp add: UndecorateSymbol_def dbghelp_foo_def undecorate_foo_def c_str_def NUL_def)
  have "cout (process_line dbghelp_foo ''?bad@ ?foo@@YAXXZ'' (initial_world (stdin_of []))) =
      '' void foo(void)'' @ [newline]"
    by (simp add: process_line_cout tokens_scenario_D last_end_def string_view_def
          written_for_def bad foo initial_world_def c_str_def)
  with bad show ?thesis by simp
qed

text \<open>
  Claim C2 says that the output equals the input when no match resolves. With a service
  for which \<^verbatim>\<open>UndecorateSymbol\<close> never returns a value, the line \<^verbatim>\<open>a ?b c\<close>
  comes out without \<^verbatim>\<open>?b\<close>.
\<close>

theorem all_unresolved_not_identity:
  "UndecorateSymbol dbghelp_failing h symbol = None \<and>
   cout (snd (main dbghelp_failing [''msvcfilt'', ''a ?b c''] (initial_world (stdin_of [])))) =
     ''a  c'' @ [newline]"
proof -
  have "UndecorateSymbol dbghelp_failing h symbol = None"
    by (simp add: UndecorateSymbol_def dbghelp_failing_def)
  moreover
  have "cout (snd (main dbghelp_failing [''msvcfilt'', ''a ?b c''] (initial_world (stdin_of [])))) =
      ''a  c'' @ [newline]"
    by code_simp
  ultimately show ?thesis
    by simp
qed

lemma tokens_a_NUL_b: "sregex_token_iterator line_a_NUL_b = []"
  by code_simp

lemma c_str_a_NUL_b: "c_str line_a_NUL_b = ''a''"
  by (simp add: c_str_def line_a_NUL_b_def NUL_def)

text \<open>
  Claim C3 says that a line without a candidate is written as it is. The line of the three
  bytes \<^verbatim>\<open>a\<close>, NUL, \<^verbatim>\<open>b\<close> has no candidate, and only \<^verbatim>\<open>a\<close> is written.
\<close>

theorem no_candidate_NUL_truncated:
  "\<not> contains_candidate line_a_NUL_b \<and>
   cout (process_line env line_a_NUL_b w) = cout w @ ''a'' @ [newline]"
  using no_tokens_iff [of line_a_NUL_b]
  by (simp add: process_line_cout tokens_a_NUL_b last_end_def c_str_a_NUL_b)

text \<open>
  Claim C5 says that no line is produced once standard input has no more data. After the
  last line feed has been read the stream is still good, and the next call returns an empty
  line: for the input \<^verbatim>\<open>a\<close>, line feed, the program writes two lines.
\<close>

theorem extra_line_at_end_of_input:
  "fst (getNextLine (initial_world (stdin_of []))) = Some [] \<and>
   cout (snd (main dbghelp_foo [''msvcfilt''] (initial_world (stdin_of (''a'' @ [newline]))))) =
     ''a'' @ [newline] @ [newline]"
  by code_simp

subsection \<open>The command line\<close>

lemma literal_args_Nil: "literal_args [] = []"
  by (simp add: literal_args_def)

lemma literal_args_Cons:
  "literal_args (a # args) = (if is_keep a then literal_args args else a # literal_args args)"
  by (simp add: literal_args_def)

lemma processArgs_loop_no_help:
  "\<forall>a\<in>set args. \<not> is_help a \<Longrightarrow>
   processArgs_loop args w =
     (True, w\<lparr>gKeepOldName := gKeepOldName w \<or> (\<exists>a\<in>set args. is_keep a),
              gInputStrings :=
                (case gInputStrings w of
                   None \<Rightarrow> if literal_args args = [] then None else Some (literal_args args)
                 | Some q \<Rightarrow> Some (q @ literal_args args))\<rparr>)"
proof (induction args arbitrary: w)
  case Nil
  then show ?case
    by (simp add: literal_args_Nil split: option.splits)
next
  case (Cons a args)
  then have a: "\<not> is_help a" and rest: "\<forall>a\<in>set args. \<not> is_help a"
    by simp_all
  show ?case
  proof (cases "is_keep a")
    case True
    then show ?thesis
      using a Cons.IH [OF rest] by (simp add: literal_args_Cons split: option.splits)
  next
    case False
    then show ?thesis
      using a Cons.IH [OF rest] by (simp add: literal_args_Cons split: option.splits)
  qed
qed

lemma processArgs_loop_until_help:
  "\<forall>a\<in>set pre. \<not> is_help a \<Longrightarrow> is_help h \<Longrightarrow>
   processArgs_loop (pre @ h # post) w = (False, showHelp (snd (processArgs_loop pre w)))"
proof (induction pre arbitrary: w)
  case Nil
  then show ?case by simp
next
  case (Cons a pre)
  then show ?case by (simp add: Let_def)
qed

text \<open>
  Claim C10, amended. \<^verbatim>\<open>processArgs\<close> stops at the first help flag. Of the arguments
  between the program name and the first help flag (all of them, when there is none), every
  \<^verbatim>\<open>-keep\<close> and \<^verbatim>\<open>--keep\<close> sets \<^verbatim>\<open>gKeepOldName\<close> and is not queued, and every
  other one is appended to the queue in order; the queue exists only if there is such an
  argument. The arguments after a help flag have no effect.
\<close>

theorem processArgs_up_to_help:
  assumes "\<forall>a\<in>set pre. \<not> is_help a" and "rest = [] \<or> is_help (hd rest)"
  shows "processArgs (prog # pre @ rest) (initial_world stdin) =
           (rest = [],
            (if rest = [] then id else showHelp)
              ((initial_world stdin)
                 \<lparr>gKeepOldName := (\<exists>a\<in>set pre. is_keep a),
                  gInputStrings :=
                    (if literal_args pre = [] then None else Some (literal_args pre))\<rparr>))"
proof (cases rest)
  case Nil
  then show ?thesis
    using processArgs_loop_no_help [OF assms(1), of "initial_world stdin"]
    by (simp add: processArgs_def initial_world_def)
next
  case (Cons h post)
  with assms(2) have "is_help h" by simp
  then show ?thesis
    using Cons processArgs_loop_until_help [OF assms(1), of h post "initial_world stdin"]
      processArgs_loop_no_help [OF assms(1), of "initial_world stdin"]
    by (simp add: processArgs_def initial_world_def)
qed

theorem processArgs_up_to_help_witness:
  "processArgs [''msvcfilt'', ''-keep'', ''a'', ''--keep'', ''b'', ''-help'', ''c'', ''-keep'']
     (initial_world (stdin_of [])) =
   (False, showHelp ((initial_world (stdin_of []))
                       \<lparr>gKeepOldName := True, gInputStrings := Some [''a'', ''b'']\<rparr>))"
  using processArgs_up_to_help [of "[''-keep'', ''a'', ''--keep'', ''b'']"
      "[''-help'', ''c'', ''-keep'']" "''msvcfilt''" "stdin_of []"]
  by (simp add: is_help_def is_keep_def literal_args_def)

text \<open>
  Claim C10 as it is written fails for arguments behind a help flag: in
  \<^verbatim>\<open>msvcfilt -help -keep x\<close> the flag is not set and nothing is queued.
\<close>

theorem keep_after_help_ignored:
  "\<not> gKeepOldName (snd (processArgs [''msvcfilt'', ''-help'', ''-keep'', ''x'']
                           (initial_world (stdin_of [])))) \<and>
   gInputStrings (snd (processArgs [''msvcfilt'', ''-help'', ''-keep'', ''x'']
                         (initial_world (stdin_of [])))) = None"
  by (simp add: processArgs_def is_help_def showHelp_def cout_put_def initial_world_def)

subsection \<open>The symbol handler\<close>

lemma process_line_any_instance:
  "cout (process_line env line (w\<lparr>static_instance := inst\<rparr>)) = cout (process_line env line w)"
  by (simp add: process_line_cout)

text \<open>
  Claim C4, amended. The handler is constructed by the first call of
  \<^verbatim>\<open>GetInstance\<close> and never again: a second call returns the same handler and leaves
  the state as it is, whatever \<^verbatim>\<open>SymInitialize\<close> would return then. The first call
  records the outcome of \<^verbatim>\<open>SymInitialize\<close> in \<^verbatim>\<open>fProc\<close>, the process handle or
  null, and the only effect of a null \<^verbatim>\<open>fProc\<close> is that the end of the program makes no
  \<^verbatim>\<open>SymCleanup\<close> call. \<^verbatim>\<open>UndecorateSymbol\<close> does not look at \<^verbatim>\<open>fProc\<close>: for
  every handler and every outcome of the initialisation it returns no value when
  \<^verbatim>\<open>UnDecorateSymbolName\<close> returns 0 and otherwise the C string that the service left
  in the buffer, and what a line writes does not depend on the handler either.
\<close>

theorem initialisation_once_and_not_consulted:
  "GetInstance env' (snd (GetInstance env w)) = GetInstance env w \<and>
   (static_instance w = None \<longrightarrow>
      fProc (fst (GetInstance env w)) =
        (if SymInitialize env (GetCurrentProcess env) then Some (GetCurrentProcess env) else None) \<and>
      process_exit (snd (GetInstance env w)) =
        (if SymInitialize env (GetCurrentProcess env) then [GetCurrentProcess env] else [])) \<and>
   (UnDecorateSymbolName env' = UnDecorateSymbolName env \<longrightarrow>
      UndecorateSymbol env' h' symbol = UndecorateSymbol env h symbol) \<and>
   UndecorateSymbol env h symbol =
     (if fst (UnDecorateSymbolName env (c_str symbol)) = 0 then None
      else Some (c_str (snd (UnDecorateSymbolName env (c_str symbol))))) \<and>
   cout (process_line env line (w\<lparr>static_instance := inst\<rparr>)) = cout (process_line env line w)"
proof -
  have once: "GetInstance env' (snd (GetInstance env w)) = GetInstance env w"
    by (simp add: GetInstance_def Let_def split: option.splits)
  have recorded: "fProc (fst (GetInstance env w)) =
        (if SymInitialize env (GetCurrentProcess env) then Some (GetCurrentProcess env) else None) \<and>
      process_exit (snd (GetInstance env w)) =
        (if SymInitialize env (GetCurrentProcess env) then [GetCurrentProcess env] else [])"
    if "static_instance w = None"
    using that
    by (simp add: GetInstance_def SymbolHandler_ctor_def process_exit_def SymbolHandler_dtor_def
          Let_def)
  have same: "UndecorateSymbol env' h' symbol = UndecorateSymbol env h symbol"
    if "UnDecorateSymbolName env' = UnDecorateSymbolName env"
    using that by (simp add: UndecorateSymbol_def)
  have name: "UndecorateSymbol env h symbol =
     (if fst (UnDecorateSymbolName env (c_str symbol)) = 0 then None
      else Some (c_str (snd (UnDecorateSymbolName env (c_str symbol)))))"
    by (simp add: UndecorateSymbol_def Let_def split: prod.splits)
  from once recorded same name process_line_any_instance [where w = w and inst = inst]
  show ?thesis
    by blast
qed

theorem initialisation_once_and_not_consulted_witness:
  "fProc (fst (GetInstance dbghelp_uninitialised (initial_world (stdin_of [])))) = None \<and>
   process_exit (snd (GetInstance dbghelp_uninitialised (initial_world (stdin_of [])))) = [] \<and>
   process_exit (snd (GetInstance dbghelp_foo (initial_world (stdin_of [])))) = [1] \<and>
   GetInstance dbghelp_foo (snd (GetInstance dbghelp_uninitialised (initial_world (stdin_of [])))) =
     GetInstance dbghelp_uninitialised (initial_world (stdin_of [])) \<and>
   UndecorateSymbol dbghelp_foo \<lparr>fProc = Some 1\<rparr> ''?foo@@YAXXZ'' =
     UndecorateSymbol dbghelp_uninitialised \<lparr>fProc = None\<rparr> ''?foo@@YAXXZ'' \<and>
   UndecorateSymbol dbghelp_uninitialised \<lparr>fProc = None\<rparr> ''?foo@@YAXXZ'' =
     Some ''void foo(void)'' \<and>
   UndecorateSymbol dbghelp_uninitialised \<lparr>fProc = None\<rparr> ''?bad@'' = None"
proof -
  let ?init = "initial_world (stdin_of [])"
  note failed = initialisation_once_and_not_consulted [where env' = dbghelp_foo
      and env = dbghelp_uninitialised and w = ?init and h' = "\<lparr>fProc = Some 1\<rparr>"
      and h = "\<lparr>fProc = None\<rparr>" and symbol = "''?foo@@YAXXZ''" and line = "[]" and inst = None]
  note succeeded = initialisation_once_and_not_consulted [where env' = dbghelp_foo
      and env = dbghelp_foo and w = ?init and h' = "\<lparr>fProc = Some 1\<rparr>"
      and h = "\<lparr>fProc = None\<rparr>" and symbol = "''?foo@@YAXXZ''" and line = "[]" and inst = None]
  note bad = initialisation_once_and_not_consulted [where env' = dbghelp_foo
      and env = dbghelp_uninitialised and w = ?init and h' = "\<lparr>fProc = Some 1\<rparr>"
      and h = "\<lparr>fProc = None\<rparr>" and symbol = "''?bad@''" and line = "[]" and inst = None]
  have fresh: "static_instance ?init = None"
    by (simp add: initial_world_def)
  have no_init: "\<not> SymInitialize dbghelp_uninitialised (GetCurrentProcess dbghelp_uninitialised)"
    by (simp add: dbghelp_uninitialised_def)
  have init: "SymInitialize dbghelp_foo (GetCurrentProcess dbghelp_foo)"
    and proc: "GetCurrentProcess dbghelp_foo = 1"
    by (simp_all add: dbghelp_foo_def)
  have same_service: "UnDecorateSymbolName dbghelp_foo = UnDecorateSymbolName dbghelp_uninitialised"
    by (simp add: dbghelp_foo_def dbghelp_uninitialised_def)
  have foo: "UnDecorateSymbolName dbghelp_uninitialised (c_str ''?foo@@YAXXZ'') =
      (14, ''void foo(void)'')"
    by (simp add: dbghelp_uninitialised_def undecorate_foo_def c_str_foo)
  have bad_res: "UnDecorateSymbolName dbghelp_uninitialised (c_str ''?bad@'') = (0, [])"
    by (simp add: dbghelp_uninitialised_def undecorate_foo_def c_str_def NUL_def)
  have 1: "fProc (fst (GetInstance dbghelp_uninitialised ?init)) = None"
    and 2: "process_exit (snd (GetInstance dbghelp_uninitialised ?init)) = []"
    using failed [THEN conjunct2, THEN conjunct1, rule_format, OF fresh] no_init by simp_all
  have 3: "process_exit (snd (GetInstance dbghelp_foo ?init)) = [1]"
    using succeeded [THEN conjunct2, THEN conjunct1, rule_format, OF fresh] init proc by simp
  have 4: "GetInstance dbghelp_foo (snd (GetInstance dbghelp_uninitialised ?init)) =
      GetInstance dbghelp_uninitialised ?init"
    by (rule failed [THEN conjunct1])
  have 5: "UndecorateSymbol dbghelp_foo \<lparr>fProc = Some 1\<rparr> ''?foo@@YAXXZ'' =
      UndecorateSymbol dbghelp_uninitialised \<lparr>fProc = None\<rparr> ''?foo@@YAXXZ''"
    by (rule failed [THEN conjunct2, THEN conjunct2, THEN conjunct1, rule_format, OF same_service])
  have 6: "UndecorateSymbol dbghelp_uninitialised \<lparr>fProc = None\<rparr> ''?foo@@YAXXZ'' =
      Some ''void foo(void)''"
    by (simp only: failed [THEN conjunct2, THEN conjunct2, THEN conjunct2, THEN conjunct1] foo)
       (simp add: c_str_void_foo)
  have 7: "UndecorateSymbol dbghelp_uninitialised \<lparr>fProc = None\<rparr> ''?bad@'' = None"
    by (simp only: bad [THEN conjunct2, THEN conjunct2, THEN conjunct2, THEN conjunct1] bad_res) simp
  from 1 2 3 4 5 6 7 show ?thesis
    by (intro conjI)
qed

text \<open>
  Claim C4 as it is written fails: with a \<^verbatim>\<open>SymInitialize\<close> that fails, the handler
  has a null \<^verbatim>\<open>fProc\<close> and still returns the undecorated name, on the first call and
  on the next one.
\<close>

theorem resolved_after_failed_initialisation:
  "fProc (fst (GetInstance dbghelp_uninitialised (initial_world (stdin_of [])))) = None \<and>
   UndecorateSymbol dbghelp_uninitialised
     (fst (GetInstance dbghelp_uninitialised (initial_world (stdin_of [])))) ''?foo@@YAXXZ'' =
     Some ''void foo(void)'' \<and>
   cout (snd (main dbghelp_uninitialised [''msvcfilt'', ''?foo@@YAXXZ'', ''?foo@@YAXXZ'']
                (initial_world (stdin_of [])))) =
     ''void foo(void)'' @ [newline] @ ''void foo(void)'' @ [newline]"
  by code_simp

subsection \<open>The input source\<close>

lemma match_step_input:
  "gInputStrings (snd (match_step env line m st)) = gInputStrings (snd st) \<and>
   cin (snd (match_step env line m st)) = cin (snd st)"
  by (simp add: match_step_def GetInstance_def cout_put_def Let_def
        split: prod.splits option.splits)

lemma match_loop_input:
  "gInputStrings (snd (match_loop env line ms st)) = gInputStrings (snd st) \<and>
   cin (snd (match_loop env line ms st)) = cin (snd st)"
  by (induction ms arbitrary: st) (simp_all add: match_step_input)

lemma process_line_input:
  "gInputStrings (process_line env line w) = gInputStrings w \<and>
   cin (process_line env line w) = cin w"
proof -
  obtain p w1 where r: "match_loop env line (sregex_token_iterator line) (0, w) = (p, w1)"
    by (cases "match_loop env line (sregex_token_iterator line) (0, w)")
  then have "gInputStrings w1 = gInputStrings w" and "cin w1 = cin w"
    using match_loop_input [of env line "sregex_token_iterator line" "(0, w)"] by simp_all
  then show ?thesis
    by (simp add: process_line_def r cout_put_def Let_def)
qed

lemma getNextLine_queue:
  "gInputStrings w = Some q \<Longrightarrow>
   getNextLine w =
     (case q of [] \<Rightarrow> (None, w) | front # rest \<Rightarrow> (Some front, w\<lparr>gInputStrings := Some rest\<rparr>))"
  by (simp add: getNextLine_def inputValid_def split: list.splits)

lemma getNextLine_stream:
  "gInputStrings w = None \<Longrightarrow>
   getNextLine w =
     (if good (cin w) then (Some (fst (getline (cin w))), w\<lparr>cin := snd (getline (cin w))\<rparr>)
      else (None, w))"
  by (simp add: getNextLine_def inputValid_def split: prod.splits)

lemma nextLines_queue:
  "gInputStrings w = Some q \<Longrightarrow>
   nextLines n w =
     (map Some (take n q) @ replicate (n - length q) None, w\<lparr>gInputStrings := Some (drop n q)\<rparr>)"
proof (induction n arbitrary: w q)
  case 0
  then show ?case by simp
next
  case (Suc n)
  show ?case
  proof (cases q)
    case Nil
    with Suc.prems have "getNextLine w = (None, w)"
      by (simp add: getNextLine_queue)
    then show ?thesis
      using Suc.IH [OF Suc.prems] Nil by (simp add: replicate_append_same)
  next
    case (Cons front rest)
    with Suc.prems have "getNextLine w = (Some front, w\<lparr>gInputStrings := Some rest\<rparr>)"
      by (simp add: getNextLine_queue)
    then show ?thesis
      using Suc.IH [of "w\<lparr>gInputStrings := Some rest\<rparr>" rest] Cons by simp
  qed
qed

lemma main_loop_queue_cin:
  "gInputStrings w \<noteq> None \<Longrightarrow> cin (main_loop env w) = cin w"
proof (induction env w rule: main_loop.induct)
  case (1 env w)
  from "1.prems" obtain q where q: "gInputStrings w = Some q"
    by blast
  show ?case
  proof (cases q)
    case Nil
    with q show ?thesis
      by (subst main_loop.simps) (simp add: getNextLine_queue)
  next
    case (Cons front rest)
    let ?w' = "w\<lparr>gInputStrings := Some rest\<rparr>"
    have step: "getNextLine w = (Some front, ?w')"
      using q Cons by (simp add: getNextLine_queue)
    have "cin (main_loop env (process_line env front ?w')) = cin (process_line env front ?w')"
      using "1.IH" [OF step [symmetric] refl] by (simp add: process_line_input)
    then show ?thesis
      using step by (subst main_loop.simps) (simp add: process_line_input)
  qed
qed

lemma main_loop_stream_queue:
  "gInputStrings w = None \<Longrightarrow> gInputStrings (main_loop env w) = None"
proof (induction env w rule: main_loop.induct)
  case (1 env w)
  show ?case
  proof (cases "good (cin w)")
    case False
    with "1.prems" show ?thesis
      by (subst main_loop.simps) (simp add: getNextLine_stream)
  next
    case True
    let ?line = "fst (getline (cin w))"
    let ?w' = "w\<lparr>cin := snd (getline (cin w))\<rparr>"
    have step: "getNextLine w = (Some ?line, ?w')"
      using True "1.prems" by (simp add: getNextLine_stream)
    have "gInputStrings (main_loop env (process_line env ?line ?w')) = None"
      using "1.IH" [OF step [symmetric] refl] "1.prems" by (simp add: process_line_input)
    then show ?thesis
      using step by (subst main_loop.simps) simp
  qed
qed

lemma processArgs_loop_cin: "cin (snd (processArgs_loop args w)) = cin w"
  by (induction args arbitrary: w) (simp_all add: showHelp_def cout_put_def Let_def)

lemma processArgs_loop_queue_kept:
  "gInputStrings w \<noteq> None \<Longrightarrow> gInputStrings (snd (processArgs_loop args w)) \<noteq> None"
  by (induction args arbitrary: w) (auto simp: showHelp_def cout_put_def Let_def)

lemma processArgs_loop_literal_queue:
  "\<exists>a\<in>set args. \<not> is_keep a \<and> \<not> is_help a \<Longrightarrow> fst (processArgs_loop args w) \<Longrightarrow>
   gInputStrings (snd (processArgs_loop args w)) \<noteq> None"
proof (induction args arbitrary: w)
  case Nil
  then show ?case by simp
next
  case (Cons a args)
  show ?case
  proof (cases "is_help a")
    case True
    with Cons.prems(2) show ?thesis by simp
  next
    case not_help: False
    show ?thesis
    proof (cases "is_keep a")
      case True
      with not_help Cons show ?thesis by auto
    next
      case False
      define w1 where "w1 = (if gInputStrings w = None then w\<lparr>gInputStrings := Some []\<rparr> else w)"
      define w2 where "w2 = w1\<lparr>gInputStrings := map_option (\<lambda>q. q @ [a]) (gInputStrings w1)\<rparr>"
      have "processArgs_loop (a # args) w = processArgs_loop args w2"
        using not_help False by (simp add: w1_def w2_def Let_def)
      moreover have "gInputStrings w2 \<noteq> None"
        by (auto simp: w1_def w2_def)
      ultimately show ?thesis
        by (simp add: processArgs_loop_queue_kept)
    qed
  qed
qed

text \<open>
  Claim C6. When the arguments hold a literal string, the run leaves standard input as it
  found it. Without a help flag the queue is the list of the literal arguments in their
  order, successive calls of \<^verbatim>\<open>getNextLine\<close> return its elements one by one from the
  front and no value afterwards, and none of these calls touches standard input. When no
  literal string is given the queue stays absent for the whole run, and
  \<^verbatim>\<open>getNextLine\<close> is decided by standard input alone.
\<close>

theorem literal_arguments_exclude_stdin:
  "((\<exists>a\<in>set (drop 1 argv). \<not> is_keep a \<and> \<not> is_help a) \<longrightarrow>
      cin (snd (main env argv (initial_world stdin))) = stdin) \<and>
   ((\<forall>a\<in>set (drop 1 argv). \<not> is_help a) \<and> literal_args (drop 1 argv) \<noteq> [] \<longrightarrow>
      gInputStrings (snd (processArgs argv (initial_world stdin))) =
        Some (literal_args (drop 1 argv)) \<and>
      fst (nextLines n (snd (processArgs argv (initial_world stdin)))) =
        map Some (take n (literal_args (drop 1 argv))) @
        replicate (n - length (literal_args (drop 1 argv))) None \<and>
      cin (snd (nextLines n (snd (processArgs argv (initial_world stdin))))) = stdin) \<and>
   ((\<forall>a\<in>set (drop 1 argv). \<not> is_help a) \<and> literal_args (drop 1 argv) = [] \<longrightarrow>
      gInputStrings (snd (processArgs argv (initial_world stdin))) = None \<and>
      gInputStrings (snd (main env argv (initial_world stdin))) = None \<and>
      getNextLine (snd (processArgs argv (initial_world stdin))) =
        (if good stdin
         then (Some (fst (getline stdin)),
               (snd (processArgs argv (initial_world stdin)))\<lparr>cin := snd (getline stdin)\<rparr>)
         else (None, snd (processArgs argv (initial_world stdin)))))"
proof -
  let ?args = "drop 1 argv"
  let ?init = "initial_world stdin"
  let ?w = "snd (processArgs argv ?init)"
  have cin_w: "cin ?w = stdin"
    by (simp add: processArgs_def processArgs_loop_cin initial_world_def)
  have first: "cin (snd (main env argv ?init)) = stdin"
    if lit: "\<exists>a\<in>set ?args. \<not> is_keep a \<and> \<not> is_help a"
  proof -
    obtain b w' where r: "processArgs argv ?init = (b, w')"
      by (cases "processArgs argv ?init")
    then have w': "cin w' = stdin"
      using cin_w by simp
    show ?thesis
    proof (cases b)
      case False
      then show ?thesis
        using r w' by (simp add: main_def)
    next
      case True
      then have "gInputStrings w' \<noteq> None"
        using processArgs_loop_literal_queue [OF lit, of ?init] r by (simp add: processArgs_def)
      then have "cin (main_loop env w') = stdin"
        using w' by (simp add: main_loop_queue_cin)
      then show ?thesis
        using True r by (simp add: main_def)
    qed
  qed
  have no_help: "processArgs argv ?init =
      (True, ?init\<lparr>gKeepOldName := \<exists>a\<in>set ?args. is_keep a,
                 gInputStrings := if literal_args ?args = [] then None
                                  else Some (literal_args ?args)\<rparr>)"
    if "\<forall>a\<in>set ?args. \<not> is_help a"
    using processArgs_loop_no_help [OF that, of ?init]
    by (simp add: processArgs_def initial_world_def)
  have second: "gInputStrings ?w = Some (literal_args ?args) \<and>
      fst (nextLines n ?w) =
        map Some (take n (literal_args ?args)) @ replicate (n - length (literal_args ?args)) None \<and>
      cin (snd (nextLines n ?w)) = stdin"
    if h: "\<forall>a\<in>set ?args. \<not> is_help a" and lits: "literal_args ?args \<noteq> []"
  proof -
    have q: "gInputStrings ?w = Some (literal_args ?args)"
      using no_help [OF h] lits by simp
    show ?thesis
      using q cin_w by (simp add: nextLines_queue [OF q])
  qed
  have third: "gInputStrings ?w = None \<and> gInputStrings (snd (main env argv ?init)) = None \<and>
      getNextLine ?w =
        (if good stdin then (Some (fst (getline stdin)), ?w\<lparr>cin := snd (getline stdin)\<rparr>)
         else (None, ?w))"
    if h: "\<forall>a\<in>set ?args. \<not> is_help a" and lits: "literal_args ?args = []"
  proof -
    have q: "gInputStrings ?w = None"
      using no_help [OF h] lits by simp
    have "gInputStrings (snd (main env argv ?init)) = None"
      using no_help [OF h] main_loop_stream_queue [OF q, of env]
      by (simp add: main_def)
    then show ?thesis
      using q cin_w getNextLine_stream [OF q] by simp
  qed
  from first second third show ?thesis
    by blast
qed

theorem literal_arguments_exclude_stdin_witness:
  "cin (snd (main dbghelp_foo [''msvcfilt'', ''a'', ''-keep'', ''b''] (initial_world (stdin_of ''unread'')))) =
     stdin_of ''unread'' \<and>
   fst (nextLines 3 (snd (processArgs [''msvcfilt'', ''a'', ''-keep'', ''b'']
                            (initial_world (stdin_of ''unread''))))) =
     [Some ''a'', Some ''b'', None] \<and>
   gInputStrings (snd (main dbghelp_foo [''msvcfilt'', ''-keep''] (initial_world (stdin_of ''read'')))) =
     None"
  using literal_arguments_exclude_stdin [of "[''msvcfilt'', ''a'', ''-keep'', ''b'']"
      dbghelp_foo "stdin_of ''unread''" 3]
    literal_arguments_exclude_stdin [of "[''msvcfilt'', ''-keep'']" dbghelp_foo "stdin_of ''read''" 0]
  by (simp add: is_help_def is_keep_def literal_args_def)

end
